theory Spec2Isabelle
  imports Main
begin

section \<open>JavaScript values and errors\<close>

text \<open>
  The values that flow through \<^verbatim>\<open>CircuitBreakerService.execute\<close>: results of the
  protected operation and fallback results. A number among them is an integer.
\<close>

datatype jsval =
    JUndefined
  | JNull
  | JBool bool
  | JNum int
  | JStr string
  | JObj "(string \<times> jsval) list"

text \<open>ToBoolean, as used by \<^verbatim>\<open>if (fallbackResult)\<close>.\<close>

fun truthy :: "jsval \<Rightarrow> bool" where
  "truthy JUndefined = False"
| "truthy JNull = False"
| "truthy (JBool b) = b"
| "truthy (JNum n) = (n \<noteq> 0)"
| "truthy (JStr s) = (s \<noteq> [])"
| "truthy (JObj fs) = True"

text \<open>
  What can be thrown: a NestJS \<^verbatim>\<open>HttpException\<close> or an instance of a subclass (message,
  status), or anything that is not an instance of \<^verbatim>\<open>HttpException\<close>, whatever
  properties it carries (a plain \<^verbatim>\<open>Error\<close> with its message).
\<close>

datatype exn =
    HttpException string int
  | Error string

section \<open>Numbers\<close>

text \<open>
  JavaScript numbers are doubles. The numbers the service computes with are the count
  that \<^verbatim>\<open>parseInt\<close> reads, the threshold and the timeout: \<open>NaN\<close> (which \<^verbatim>\<open>undefined\<close>
  becomes in a comparison and in a division), an infinity, or an integer. Fractions are
  left out: the data model has thresholds and timeouts as integers. An integer \<open>n\<close>
  is a number of the program when a double holds it (\<open>toDouble n = Fin n\<close>, below);
  what is proved of every integer holds of these.
\<close>

datatype number = NaN | Fin int | PosInfinity | NegInfinity

text \<open>\<^verbatim>\<open>a >= b\<close>: false as soon as one side is \<open>NaN\<close>.\<close>

fun number_ge :: "number \<Rightarrow> number \<Rightarrow> bool" where
  "number_ge NaN b = False"
| "number_ge a NaN = False"
| "number_ge PosInfinity b = True"
| "number_ge a NegInfinity = True"
| "number_ge (Fin a) (Fin b) = (b \<le> a)"
| "number_ge (Fin a) PosInfinity = False"
| "number_ge NegInfinity b = False"

text \<open>
  The double nearest to an integer, which is what a double can hold of it: 53
  significant bits, the rest rounded to nearest, a tie to the even significand, and an
  infinity when the result needs more than 1024 bits (from \<open>2^1024\<close> on). Integers up
  to \<open>2^53\<close> in magnitude are held exactly.
\<close>

fun bitlen :: "nat \<Rightarrow> nat" where
  "bitlen n = (if n = 0 then 0 else Suc (bitlen (n div 2)))"

declare bitlen.simps [simp del]

definition roundMagnitude :: "nat \<Rightarrow> nat" where
  "roundMagnitude m =
     (let e = bitlen m - 53
      in if e = 0 then m
         else (let q = m div 2 ^ e;
                   r = m mod 2 ^ e;
                   h = 2 ^ (e - 1)
               in (if h < r \<or> (r = h \<and> odd q) then q + 1 else q) * 2 ^ e))"

definition toDouble :: "int \<Rightarrow> number" where
  "toDouble i =
     (let m = roundMagnitude (nat \<bar>i\<bar>)
      in if 1024 < bitlen m then (if i < 0 then NegInfinity else PosInfinity)
         else Fin (if i < 0 then - int m else int m))"

text \<open>
  \<^verbatim>\<open>Math.floor(timeout / 1000)\<close>. The division gives the double nearest to the quotient,
  and the floor is taken of that double. For a timeout of magnitude \<open>m\<close>,
  \<open>roundedQuotient1000 m\<close> is this double, as a significand \<open>n\<close> of 53 bits (rounded
  to nearest, a tie to the even one) and two exponents: the double is
  \<open>n * 2 ^ up / 2 ^ down\<close>. \<open>NaN\<close> and the infinities stay what they are.
\<close>

definition roundedQuotient1000 :: "nat \<Rightarrow> nat \<times> nat \<times> nat" where
  "roundedQuotient1000 m =
     (let b = bitlen (m * 1024 div 1000)
      in if b \<le> 63
         then (let s = 63 - b;
                   q = m * 2 ^ s div 1000;
                   r = m * 2 ^ s mod 1000
               in (if 500 < r \<or> (r = 500 \<and> odd q) then q + 1 else q, s, 0))
         else (let s = b - 63;
                   d = 1000 * 2 ^ s;
                   q = m div d;
                   r = m mod d
               in (if d < 2 * r \<or> (2 * r = d \<and> odd q) then q + 1 else q, 0, s)))"

definition floor1000 :: "int \<Rightarrow> int" where
  "floor1000 t =
     (if t = 0 then 0
      else (let (n, down, up) = roundedQuotient1000 (nat \<bar>t\<bar>)
            in if 0 < t then int (n * 2 ^ up div 2 ^ down)
               else - int ((n * 2 ^ up + 2 ^ down - 1) div 2 ^ down)))"

fun floorSeconds :: "number \<Rightarrow> number" where
  "floorSeconds (Fin t) = Fin (floor1000 t)"
| "floorSeconds NaN = NaN"
| "floorSeconds PosInfinity = PosInfinity"
| "floorSeconds NegInfinity = NegInfinity"

section \<open>Constants (constants.ts)\<close>

definition SERVICE_UNAVAILABLE :: int where
  "SERVICE_UNAVAILABLE = 503"

definition TOO_MANY_REQUESTS :: int where
  "TOO_MANY_REQUESTS = 429"

datatype CircuitBreakerState = OPEN | CLOSED

definition CIRCUIT_BREAKER_KEY_PREFIX :: string where
  "CIRCUIT_BREAKER_KEY_PREFIX = ''circuit-breaker''"

text \<open>
  \<^verbatim>\<open>CircuitBreakerConfig\<close>: every property is optional. An object literal can leave a
  property out (\<open>Absent\<close>), or have it with the value \<^verbatim>\<open>undefined\<close>
  (\<open>PresentUndefined\<close>), or with a value of its type (\<open>Present\<close>); reading the property
  gives \<^verbatim>\<open>undefined\<close> in the first two cases, spreading the object tells them apart.
\<close>

datatype 'a property = Absent | PresentUndefined | Present 'a

record CircuitBreakerConfig =
  threshold :: "int property"
  timeout :: "int property"
  fallbackResult :: "jsval property"
  key :: "string property"

definition DEFAULT_CIRCUIT_BREAKER_CONFIG :: CircuitBreakerConfig where
  "DEFAULT_CIRCUIT_BREAKER_CONFIG =
     \<lparr>threshold = Present 3, timeout = Present 10000, fallbackResult = Absent, key = Absent\<rparr>"

text \<open>
  \<^verbatim>\<open>CircuitBreakerModuleOptions\<close>. The service reads \<^verbatim>\<open>serviceName\<close> through
  \<^verbatim>\<open>??\<close>, so an undefined name (\<open>None\<close>) is part of the model.
\<close>

record CircuitBreakerModuleOptions =
  serviceName :: "string option"
  redisHost :: string
  redisPort :: int

section \<open>parseInt\<close>

text \<open>
  \<^verbatim>\<open>parseInt(count)\<close> with no radix, following ECMAScript: leading white space is
  skipped, a sign is read, a \<^verbatim>\<open>0x\<close>/\<^verbatim>\<open>0X\<close> prefix selects radix 16, the longest
  prefix of digits is the value, and no digit at all is \<open>NaN\<close>. The result is a
  number, so the value is rounded to the nearest double (correctly rounded for every
  length of the digit string, as V8 does). Strings are sequences of code units below
  256, so of the white space characters the ASCII ones and the no-break space are
  covered.
\<close>

definition isWhiteSpace :: "char \<Rightarrow> bool" where
  "isWhiteSpace c \<longleftrightarrow>
     c \<in> {CHR 0x09, CHR 0x0A, CHR 0x0B, CHR 0x0C, CHR 0x0D, CHR 0x20, CHR 0xA0}"

definition digitValue :: "char \<Rightarrow> nat option" where
  "digitValue c =
     (let n = (of_char c :: nat) in
        if 48 \<le> n \<and> n \<le> 57 then Some (n - 48)
        else if 97 \<le> n \<and> n \<le> 122 then Some (n - 87)
        else if 65 \<le> n \<and> n \<le> 90 then Some (n - 55)
        else None)"

definition isRadixDigit :: "nat \<Rightarrow> char \<Rightarrow> bool" where
  "isRadixDigit R c = (case digitValue c of Some d \<Rightarrow> d < R | None \<Rightarrow> False)"

definition mathInt :: "nat \<Rightarrow> string \<Rightarrow> nat" where
  "mathInt R Z =
     foldl (\<lambda>a c. case digitValue c of Some d \<Rightarrow> a * R + d | None \<Rightarrow> a) 0 Z"

definition parseInt :: "string \<Rightarrow> number" where
  "parseInt inputString =
     (let S = dropWhile isWhiteSpace inputString;
          (sign, S1) =
            (case S of
               [] \<Rightarrow> (1 :: int, S)
             | c # r \<Rightarrow>
                 if c = CHR ''-'' then (- 1, r)
                 else if c = CHR ''+'' then (1, r)
                 else (1, S));
          (R, S2) =
            (case S1 of
               a # b # r \<Rightarrow>
                 if a = CHR ''0'' \<and> (b = CHR ''x'' \<or> b = CHR ''X'') then (16 :: nat, r)
                 else (10, S1)
             | _ \<Rightarrow> (10, S1));
          Z = takeWhile (isRadixDigit R) S2
      in if Z = [] then NaN else toDouble (sign * int (mathInt R Z)))"

section \<open>The key-value store (RedisService)\<close>

text \<open>
  Modelled from the spec: the store behind \<^verbatim>\<open>RedisService\<close>, which forwards every call
  to an ioredis client; client and server are not part of the repository. The model is
  the KeyValueStore contract of section 6: \<^verbatim>\<open>get\<close>, \<^verbatim>\<open>del\<close>, \<^verbatim>\<open>incr\<close> creating the key
  at 1 if absent, \<^verbatim>\<open>expire\<close>, and a batch that runs its commands in issued order as
  one step and replies \<^verbatim>\<open>(error|null, result)\<close> for each. A key holds a string and an
  optional time to live in seconds. An integer is stored as its decimal rendering, and
  \<^verbatim>\<open>incr\<close> on a string that is not such a rendering replies with an error and changes
  nothing, as Redis does; so does \<^verbatim>\<open>expire\<close> when the seconds it is given are not an
  integer (\<open>NaN\<close>, an infinity). The counter is not bounded, the store is always
  reachable, and the passing of time (expiry) is not modelled: \<^verbatim>\<open>expire\<close> records the
  time to live.
\<close>

record entry =
  val :: string
  ttl :: "int option"

type_synonym store = "string \<rightharpoonup> entry"

fun show_nat :: "nat \<Rightarrow> string" where
  "show_nat n =
     (if n < 10 then [char_of (48 + n)]
      else show_nat (n div 10) @ [char_of (48 + n mod 10)])"

declare show_nat.simps [simp del]

definition show_int :: "int \<Rightarrow> string" where
  "show_int i = (if i < 0 then CHR ''-'' # show_nat (nat (- i)) else show_nat (nat i))"

text \<open>The integer a stored string stands for, if it is the rendering of one.\<close>

definition string2ll :: "string \<Rightarrow> int option" where
  "string2ll s =
     (let (sign, body) =
            (case s of
               [] \<Rightarrow> (1 :: int, s)
             | c # r \<Rightarrow> if c = CHR ''-'' then (- 1, r) else (1, s));
          v = sign * int (mathInt 10 body)
      in if body \<noteq> [] \<and> list_all (isRadixDigit 10) body \<and> show_int v = s
         then Some v else None)"

datatype command = INCR string | EXPIRE string number

text \<open>A reply of the batch: \<^verbatim>\<open>[error | null, result]\<close>.\<close>

type_synonym reply = "string option \<times> jsval"

fun run_command :: "command \<Rightarrow> store \<Rightarrow> reply \<times> store" where
  "run_command (INCR k) db =
     (case db k of
        None \<Rightarrow> ((None, JNum 1), db(k \<mapsto> \<lparr>val = show_int 1, ttl = None\<rparr>))
      | Some e \<Rightarrow>
          (case string2ll (val e) of
             None \<Rightarrow> ((Some ''ERR value is not an integer or out of range'', JUndefined), db)
           | Some n \<Rightarrow> ((None, JNum (n + 1)), db(k \<mapsto> e\<lparr>val := show_int (n + 1)\<rparr>))))"
| "run_command (EXPIRE k seconds) db =
     (case seconds of
        Fin secs \<Rightarrow>
          (case db k of
             None \<Rightarrow> ((None, JNum 0), db)
           | Some e \<Rightarrow> ((None, JNum 1), db(k \<mapsto> e\<lparr>ttl := Some secs\<rparr>)))
      | _ \<Rightarrow> ((Some ''ERR value is not an integer or out of range'', JUndefined), db))"

fun run_commands :: "command list \<Rightarrow> store \<Rightarrow> reply list \<times> store" where
  "run_commands [] db = ([], db)"
| "run_commands (c # cs) db =
     (let (r, db1) = run_command c db;
          (rs, db2) = run_commands cs db1
      in (r # rs, db2))"

text \<open>
  The world the service runs in: the store, and the trace of what has been asked of the
  store and of the protected operation, in order.
\<close>

datatype event =
    Get string
  | Del string
  | Exec "command list"
  | Invoke

record world =
  redis :: store
  events :: "event list"

definition emit :: "event \<Rightarrow> world \<Rightarrow> world" where
  "emit ev w = w\<lparr>events := events w @ [ev]\<rparr>"

definition RedisService_get :: "string \<Rightarrow> world \<Rightarrow> string option \<times> world" where
  "RedisService_get k w = (map_option val (redis w k), emit (Get k) w)"

definition RedisService_del :: "string \<Rightarrow> world \<Rightarrow> world" where
  "RedisService_del k w = emit (Del k) (w\<lparr>redis := (redis w)(k := None)\<rparr>)"

text \<open>
  \<^verbatim>\<open>executePipeline\<close>: the callback queues its commands on a pipeline, \<^verbatim>\<open>exec\<close> sends
  them as one batch and returns the replies (or \<^verbatim>\<open>null\<close>, which this store never does).
\<close>

definition executePipeline :: "command list \<Rightarrow> world \<Rightarrow> reply list option \<times> world" where
  "executePipeline cmds w =
     (let (rs, db) = run_commands cmds (redis w)
      in (Some rs, emit (Exec cmds) (w\<lparr>redis := db\<rparr>)))"

section \<open>CircuitBreakerService\<close>

definition getCircuitBreakerServiceName :: "CircuitBreakerModuleOptions \<Rightarrow> string" where
  "getCircuitBreakerServiceName config =
     (case serviceName config of Some n \<Rightarrow> n | None \<Rightarrow> ''service'')"

definition getCircuitBreakerKey :: "CircuitBreakerModuleOptions \<Rightarrow> string \<Rightarrow> string" where
  "getCircuitBreakerKey config k =
     CIRCUIT_BREAKER_KEY_PREFIX @ '':'' @ getCircuitBreakerServiceName config @ '':'' @ k"

definition getCircuitBreakerStatus ::
  "CircuitBreakerModuleOptions \<Rightarrow> string \<Rightarrow> number \<Rightarrow> world \<Rightarrow> CircuitBreakerState \<times> world"
where
  "getCircuitBreakerStatus config k thr w =
     (let (count, w1) = RedisService_get (getCircuitBreakerKey config k) w
      in (case count of
            None \<Rightarrow> (CLOSED, w1)
          | Some c \<Rightarrow>
              if c = [] then (CLOSED, w1)
              else if number_ge (parseInt c) thr then (OPEN, w1)
              else (CLOSED, w1)))"

text \<open>
  \<^verbatim>\<open>results?.[i]?.[0]\<close>: \<open>None\<close> is \<^verbatim>\<open>undefined\<close> (no replies, or no reply at \<open>i\<close>),
  \<open>Some None\<close> is \<^verbatim>\<open>null\<close>, \<open>Some (Some e)\<close> is an error.
\<close>

definition reply_error :: "reply list option \<Rightarrow> nat \<Rightarrow> string option option" where
  "reply_error results i =
     (case results of
        None \<Rightarrow> None
      | Some rs \<Rightarrow> if i < length rs then Some (fst (rs ! i)) else None)"

definition handleCircuitBreakerError ::
  "CircuitBreakerModuleOptions \<Rightarrow> string \<Rightarrow> number \<Rightarrow> world \<Rightarrow> (exn + unit) \<times> world"
where
  "handleCircuitBreakerError config k tmo w =
     (let circuitBreakerKey = getCircuitBreakerKey config k;
          (results, w1) =
            executePipeline
              [INCR circuitBreakerKey, EXPIRE circuitBreakerKey (floorSeconds tmo)] w
      in if reply_error results 0 \<noteq> Some None
         then (Inl (Error ''Failed to increment circuit breaker error count''), w1)
         else if reply_error results 1 \<noteq> Some None
         then (Inl (Error ''Failed to set circuit breaker error count expiration''), w1)
         else (Inr (), w1))"

text \<open>
  The test of the \<^verbatim>\<open>catch\<close> block of \<^verbatim>\<open>execute\<close>, which decides whether a failure is
  counted:
  \<^verbatim>\<open>error instanceof HttpException && (error.getStatus() >= 500 || error.getStatus() === 429)\<close>.
\<close>

fun tripWorthy :: "exn \<Rightarrow> bool" where
  "tripWorthy (HttpException msg status) = (status \<ge> 500 \<or> status = 429)"
| "tripWorthy (Error msg) = False"

text \<open>
  \<^verbatim>\<open>execute(fn, key, threshold, timeout, fallbackResult = null)\<close>. The protected
  operation \<open>fn\<close> is given by its outcome (\<open>Inl\<close> what it throws, \<open>Inr\<close> what it
  returns); invoking it leaves \<open>Invoke\<close> in the trace. The default of the last
  parameter replaces \<^verbatim>\<open>undefined\<close> by \<^verbatim>\<open>null\<close>. The status is OPEN or CLOSED, so
  the closing \<^verbatim>\<open>return fallbackResult as T\<close> of the source is never reached.
\<close>

definition execute ::
  "CircuitBreakerModuleOptions \<Rightarrow> (exn + jsval) \<Rightarrow> string \<Rightarrow> number \<Rightarrow> number \<Rightarrow> jsval
     \<Rightarrow> world \<Rightarrow> (exn + jsval) \<times> world"
where
  "execute config fn k thr tmo fallback w =
     (let fb = (if fallback = JUndefined then JNull else fallback);
          (circuitBreakerStatus, w1) = getCircuitBreakerStatus config k thr w
      in (case circuitBreakerStatus of
            OPEN \<Rightarrow>
              if truthy fb then (Inr fb, w1)
              else (Inl (HttpException ''Service is unavailable - Circuit Breaker is open''
                           SERVICE_UNAVAILABLE), w1)
          | CLOSED \<Rightarrow>
              (case fn of
                 Inr result \<Rightarrow>
                   (Inr result,
                    RedisService_del (getCircuitBreakerKey config k) (emit Invoke w1))
               | Inl error \<Rightarrow>
                   if tripWorthy error then
                     (case handleCircuitBreakerError config k tmo (emit Invoke w1) of
                        (Inl store_error, w2) \<Rightarrow> (Inl store_error, w2)
                      | (Inr u, w2) \<Rightarrow> (Inl error, w2))
                   else (Inl error, emit Invoke w1))))"

section \<open>The decorator (UseCircuitBreaker)\<close>

text \<open>
  Object spread \<^verbatim>\<open>{...a, ...b}\<close>: every property that \<open>b\<close> has, be its value
  \<^verbatim>\<open>undefined\<close>, overrides the one of \<open>a\<close>.
\<close>

definition override :: "'a property \<Rightarrow> 'a property \<Rightarrow> 'a property" where
  "override pa pb = (case pb of Absent \<Rightarrow> pa | _ \<Rightarrow> pb)"

definition spread :: "CircuitBreakerConfig \<Rightarrow> CircuitBreakerConfig \<Rightarrow> CircuitBreakerConfig" where
  "spread a b =
     \<lparr>threshold = override (threshold a) (threshold b),
      timeout = override (timeout a) (timeout b),
      fallbackResult = override (fallbackResult a) (fallbackResult b),
      key = override (key a) (key b)\<rparr>"

definition finalConfig :: "CircuitBreakerConfig \<Rightarrow> CircuitBreakerConfig \<Rightarrow> CircuitBreakerConfig" where
  "finalConfig classConfig methodConfig =
     spread (spread DEFAULT_CIRCUIT_BREAKER_CONFIG classConfig) methodConfig"

text \<open>
  The key the wrapped method hands to \<^verbatim>\<open>execute\<close>: \<^verbatim>\<open>if (finalConfig.key)\<close> is a test
  for a non-empty string; \<open>className\<close> is \<^verbatim>\<open>this.constructor.name\<close>.
\<close>

definition redisKey :: "string \<Rightarrow> CircuitBreakerConfig \<Rightarrow> string" where
  "redisKey className cfg =
     (case key cfg of
        Present k \<Rightarrow>
          if k \<noteq> [] then ''circuit-breaker:'' @ className @ '':'' @ k
          else ''circuit-breaker:'' @ className
      | _ \<Rightarrow> ''circuit-breaker:'' @ className)"

text \<open>
  A property of type number read where a number is used: \<^verbatim>\<open>undefined\<close> compares and
  divides as \<open>NaN\<close>.
\<close>

definition numberOf :: "int property \<Rightarrow> number" where
  "numberOf p = (case p of Present n \<Rightarrow> Fin n | _ \<Rightarrow> NaN)"

text \<open>
  The method that replaces the decorated one, for a class whose
  \<^verbatim>\<open>CircuitBreakerService\<close> has been injected: it merges the configurations, builds the
  key and calls \<^verbatim>\<open>execute\<close> with \<^verbatim>\<open>finalConfig.threshold!\<close>,
  \<^verbatim>\<open>finalConfig.timeout!\<close> and \<^verbatim>\<open>finalConfig.fallbackResult\<close>, each of which is
  \<^verbatim>\<open>undefined\<close> when a configuration has the property with that value.
\<close>

definition UseCircuitBreaker ::
  "CircuitBreakerModuleOptions \<Rightarrow> string \<Rightarrow> CircuitBreakerConfig \<Rightarrow> CircuitBreakerConfig
     \<Rightarrow> (exn + jsval) \<Rightarrow> world \<Rightarrow> (exn + jsval) \<times> world"
where
  "UseCircuitBreaker config className classConfig methodConfig originalMethod w =
     (let fc = finalConfig classConfig methodConfig
      in execute config originalMethod (redisKey className fc)
           (numberOf (threshold fc)) (numberOf (timeout fc))
           (case fallbackResult fc of Present v \<Rightarrow> v | _ \<Rightarrow> JUndefined) w)"

section \<open>Notions of the specification\<close>

text \<open>
  The key construction in the words of the specification:
  \<^verbatim>\<open>prefix + ":" + scopeId + (":" + callKey if callKey else "")\<close>.
\<close>

definition breakerKey_spec :: "string \<Rightarrow> string \<Rightarrow> string option \<Rightarrow> string" where
  "breakerKey_spec prefix scopeId callKey =
     prefix @ '':'' @ scopeId @
     (case callKey of None \<Rightarrow> [] | Some ck \<Rightarrow> if ck \<noteq> [] then '':'' @ ck else [])"

text \<open>
  Trip-worthy in the words of the specification: an HTTP-like status of 5xx or 429.
\<close>

fun tripWorthy_spec :: "exn \<Rightarrow> bool" where
  "tripWorthy_spec (HttpException msg status) =
     ((500 \<le> status \<and> status \<le> 599) \<or> status = 429)"
| "tripWorthy_spec (Error msg) = False"

text \<open>
  The failure counter of the data model: the integer stored under the key, absence
  meaning zero failures; \<open>None\<close> when the stored string is not an integer.
\<close>

definition failureCount :: "store \<Rightarrow> string \<Rightarrow> int option" where
  "failureCount db k = (case db k of None \<Rightarrow> Some 0 | Some e \<Rightarrow> string2ll (val e))"

text \<open>
  Failures recorded by several callers against one key. Every caller issues one batch
  (\<^verbatim>\<open>handleCircuitBreakerError\<close>, with the timeout of its own configuration, an
  integer); the store runs the batches one after the other, in the order of the list.
\<close>

fun recordFailures ::
  "CircuitBreakerModuleOptions \<Rightarrow> string \<Rightarrow> int list \<Rightarrow> world \<Rightarrow> (exn + unit) list \<times> world"
where
  "recordFailures config k [] w = ([], w)"
| "recordFailures config k (tmo # tmos) w =
     (let (r, w1) = handleCircuitBreakerError config k (Fin tmo) w;
          (rs, w2) = recordFailures config k tmos w1
      in (r # rs, w2))"



section \<open>Example configuration and stores\<close>

definition example_options :: CircuitBreakerModuleOptions where
  "example_options =
     \<lparr>serviceName = Some ''my-api-service'', redisHost = ''localhost'', redisPort = 6379\<rparr>"

definition empty_world :: world where
  "empty_world = \<lparr>redis = Map.empty, events = []\<rparr>"

text \<open>A store that holds the string \<open>v\<close> under the service's key for \<^verbatim>\<open>checkBalance\<close>.\<close>

definition example_world :: "string \<Rightarrow> world" where
  "example_world v =
     \<lparr>redis = [getCircuitBreakerKey example_options ''checkBalance'' \<mapsto> \<lparr>val = v, ttl = None\<rparr>],
      events = []\<rparr>"

section \<open>Decimal renderings and parseInt\<close>

text \<open>
  \<^verbatim>\<open>parseInt\<close> reads the decimal rendering of an integer as the double nearest to it,
  which is the integer itself up to \<open>2^53\<close>; the store reads it back exactly when it
  increments.
\<close>

lemma bitlen_le: "m < 2 ^ k \<Longrightarrow> bitlen m \<le> k"
proof (induction m arbitrary: k rule: bitlen.induct)
  case (1 n)
  show ?case
  proof (cases "n = 0")
    case True
    then show ?thesis by (simp add: bitlen.simps)
  next
    case False
    with "1.prems" obtain j where k: "k = Suc j" by (cases k) auto
    with "1.prems" have "n div 2 < 2 ^ j" by auto
    with False "1.IH" have "bitlen (n div 2) \<le> j" by simp
    with False k show ?thesis by (subst bitlen.simps) simp
  qed
qed

lemma roundMagnitude_small: "m < 2 ^ 53 \<Longrightarrow> roundMagnitude m = m"
  using bitlen_le [of m 53] by (simp add: roundMagnitude_def)

lemma toDouble_small:
  assumes "\<bar>i\<bar> < 2 ^ 53"
  shows "toDouble i = Fin i"
proof -
  have m: "nat \<bar>i\<bar> < 2 ^ 53"
    using assms by (simp add: nat_less_iff)
  then have "bitlen (nat \<bar>i\<bar>) \<le> 53" by (rule bitlen_le)
  then have "\<not> 1024 < bitlen (roundMagnitude (nat \<bar>i\<bar>))"
    by (simp add: roundMagnitude_small [OF m])
  then show ?thesis
    by (simp add: toDouble_def roundMagnitude_small [OF m] Let_def)
qed

lemma bitlen_2_53: "bitlen 9007199254740992 = 54"
  by (simp add: bitlen.simps)

lemma roundMagnitude_2_53: "roundMagnitude 9007199254740992 = 9007199254740992"
  by (simp add: roundMagnitude_def bitlen_2_53)

lemma toDouble_exact:
  assumes "\<bar>i\<bar> \<le> 2 ^ 53"
  shows "toDouble i = Fin i"
proof (cases "\<bar>i\<bar> < 2 ^ 53")
  case True
  then show ?thesis by (rule toDouble_small)
next
  case False
  with assms have "\<bar>i\<bar> = 9007199254740992" by simp
  then consider "i = 9007199254740992" | "i = - 9007199254740992" by linarith
  then show ?thesis
    by cases (simp_all add: toDouble_def roundMagnitude_2_53 bitlen_2_53 Let_def)
qed

text \<open>
  The floor of the rounded quotient is the floor of the quotient for every timeout up to
  \<open>2^53\<close> in magnitude; it is not at \<open>2^60\<close>, where the quotient
  1152921504606846.976 is rounded to the double 1152921504606847.
\<close>

lemma ceiling_div_1000:
  fixes m :: nat
  shows "(m + 999) div 1000 = (if m mod 1000 = 0 then m div 1000 else m div 1000 + 1)"
proof -
  define k where "k = m div 1000"
  define j where "j = m mod 1000"
  have j: "j < 1000" by (simp add: j_def)
  have "(1000 * k + j + 999) div 1000 = (if j = 0 then k else k + 1)"
  proof (cases "j = 0")
    case True
    then show ?thesis by simp
  next
    case False
    have "(1000 * k + j + 999) div 1000 = k + 1"
      using False j by (intro div_nat_eqI) simp_all
    with False show ?thesis by simp
  qed
  then show ?thesis
    unfolding k_def j_def by (simp only: mult_div_mod_eq)
qed

lemma rounded_bounds:
  fixes m P q r :: nat
  assumes q: "q = m * P div 1000" and r: "r = m * P mod 1000"
  shows "1000 * (m div 1000 * P) + m mod 1000 * P = 1000 * q + r"
    and "r < 1000"
    and "m mod 1000 * P \<le> 999 * P"
    and "m mod 1000 \<noteq> 0 \<Longrightarrow> P \<le> m mod 1000 * P"
proof -
  have A: "m * P = 1000 * q + r"
    by (simp add: q r)
  have "m * P = (1000 * (m div 1000) + m mod 1000) * P"
    by (simp only: mult_div_mod_eq)
  then have C: "m * P = 1000 * (m div 1000 * P) + m mod 1000 * P"
    by (simp only: algebra_simps)
  from A C show "1000 * (m div 1000 * P) + m mod 1000 * P = 1000 * q + r" by simp
  show "r < 1000" by (simp add: r)
  show "m mod 1000 * P \<le> 999 * P"
    by (intro mult_le_mono1) simp
  show "m mod 1000 \<noteq> 0 \<Longrightarrow> P \<le> m mod 1000 * P" by simp
qed

lemma rounded_floor:
  fixes m P q r n :: nat
  assumes P: "512 \<le> P"
    and q: "q = m * P div 1000" and r: "r = m * P mod 1000"
    and n: "n = (if 500 < r \<or> (r = 500 \<and> odd q) then q + 1 else q)"
  shows "n div P = m div 1000"
proof -
  define kP where "kP = m div 1000 * P"
  define jP where "jP = m mod 1000 * P"
  note b = rounded_bounds [OF q r, folded kP_def jP_def]
  have nq: "n = q \<or> (n = q + 1 \<and> 500 \<le> r)"
    using n by (auto split: if_splits)
  have lo: "kP \<le> n" using b(1,2) nq by linarith
  have hi: "n < kP + P" using b(1,2,3) nq P by linarith
  show ?thesis
    using lo hi unfolding kP_def by (intro div_nat_eqI) (simp_all add: mult.commute)
qed

lemma rounded_ceiling:
  fixes m P q r n :: nat
  assumes P: "512 \<le> P"
    and q: "q = m * P div 1000" and r: "r = m * P mod 1000"
    and n: "n = (if 500 < r \<or> (r = 500 \<and> odd q) then q + 1 else q)"
  shows "(n + P - 1) div P = (m + 999) div 1000"
proof -
  define kP where "kP = m div 1000 * P"
  define jP where "jP = m mod 1000 * P"
  note b = rounded_bounds [OF q r, folded kP_def jP_def]
  have nq: "(n = q \<and> r \<le> 500) \<or> (n = q + 1 \<and> 500 \<le> r)"
    using n by (auto split: if_splits)
  have P0: "0 < P" using P by simp
  show ?thesis
  proof (cases "m mod 1000 = 0")
    case True
    then have "jP = 0" by (simp add: jP_def)
    with b(1) have eq0: "1000 * kP = 1000 * q + r" by simp
    have "(1000 * q + r) mod 1000 = r" using b(2) by simp
    with eq0 have "r = 0" by (metis mod_mult_self1_is_0)
    with eq0 nq have nk: "n = kP" by auto
    have "(m div 1000 * P + P - 1) div P = m div 1000"
    proof (rule div_nat_eqI)
      show "P * (m div 1000) \<le> m div 1000 * P + P - 1"
        using P0 by (simp add: mult.commute)
      show "m div 1000 * P + P - 1 < P * Suc (m div 1000)"
        using P0 by (simp add: mult.commute)
    qed
    with nk True show ?thesis by (simp add: ceiling_div_1000 kP_def)
  next
    case False
    with b(4) have E': "P \<le> jP" by simp
    have lo: "kP + 1 \<le> n" using b(1,2) E' nq P by linarith
    have hi: "n \<le> kP + P" using b(1,2,3) nq P by linarith
    define v where "v = n - kP"
    have v: "n = kP + v" and v1: "1 \<le> v" and v2: "v \<le> P"
      using lo hi by (simp_all add: v_def)
    have "(m div 1000 * P + v + P - 1) div P = m div 1000 + 1"
    proof (rule div_nat_eqI)
      show "P * (m div 1000 + 1) \<le> m div 1000 * P + v + P - 1"
        using v1 by (simp add: algebra_simps)
      show "m div 1000 * P + v + P - 1 < P * Suc (m div 1000 + 1)"
        using v2 P0 by (simp add: algebra_simps)
    qed
    with v False show ?thesis by (simp add: ceiling_div_1000 kP_def)
  qed
qed

lemma roundedQuotient1000_safe:
  assumes "m \<le> 2 ^ 53"
  obtains n s where "roundedQuotient1000 m = (n, s, 0)"
    and "n div 2 ^ s = m div 1000"
    and "(n + 2 ^ s - 1) div 2 ^ s = (m + 999) div 1000"
proof -
  define b where "b = bitlen (m * 1024 div 1000)"
  define s where "s = 63 - b"
  define q where "q = m * 2 ^ s div 1000"
  define r where "r = m * 2 ^ s mod 1000"
  define n where "n = (if 500 < r \<or> (r = 500 \<and> odd q) then q + 1 else q)"
  have "m * 1024 div 1000 < 2 ^ 54"
    using assms by (intro less_mult_imp_div_less) simp
  then have b: "b \<le> 54" unfolding b_def by (rule bitlen_le)
  then have s9: "9 \<le> s" by (simp add: s_def)
  have "(2::nat) ^ 9 \<le> 2 ^ s"
    using s9 by (intro power_increasing) simp_all
  then have P: "512 \<le> (2::nat) ^ s" by simp
  have b63: "b \<le> 63" using b by simp
  have rq: "roundedQuotient1000 m = (n, s, 0)"
    unfolding roundedQuotient1000_def Let_def
    unfolding b_def [symmetric]
    unfolding s_def [symmetric]
    unfolding q_def [symmetric] r_def [symmetric]
    unfolding n_def [symmetric]
    by (simp only: b63 if_True)
  show thesis
    using that [OF rq] rounded_floor [OF P q_def r_def n_def]
      rounded_ceiling [OF P q_def r_def n_def] by simp
qed

lemma minus_div_1000:
  "(- int m) div 1000 = - int ((m + 999) div 1000)"
proof -
  have d: "int m div 1000 = int (m div 1000)" by (simp add: zdiv_int)
  have "int m mod 1000 = int (m mod 1000)" by (simp add: zmod_int)
  then have z: "int m mod 1000 = 0 \<longleftrightarrow> m mod 1000 = 0" by simp
  have "(- int m) div 1000 =
          (if int m mod 1000 = 0 then - (int m div 1000) else - (int m div 1000) - 1)"
    by (rule zdiv_zminus1_eq_if) simp
  also have "\<dots> = - int (if m mod 1000 = 0 then m div 1000 else m div 1000 + 1)"
    unfolding z d by simp
  finally show ?thesis by (simp only: ceiling_div_1000)
qed

lemma floor1000_safe:
  assumes "\<bar>t\<bar> \<le> 2 ^ 53"
  shows "floor1000 t = t div 1000"
proof (cases "t = 0")
  case True
  then show ?thesis by (simp add: floor1000_def)
next
  case False
  have m: "nat \<bar>t\<bar> \<le> 2 ^ 53"
    using assms by (simp add: nat_le_iff)
  obtain n s where rq: "roundedQuotient1000 (nat \<bar>t\<bar>) = (n, s, 0)"
    and fl: "n div 2 ^ s = nat \<bar>t\<bar> div 1000"
    and ce: "(n + 2 ^ s - 1) div 2 ^ s = (nat \<bar>t\<bar> + 999) div 1000"
    using roundedQuotient1000_safe [OF m] by blast
  show ?thesis
  proof (cases "0 < t")
    case True
    then have "int (nat \<bar>t\<bar> div 1000) = t div 1000"
      by (simp add: zdiv_int)
    moreover have "floor1000 t = int (n * 2 ^ 0 div 2 ^ s)"
      unfolding floor1000_def Let_def rq prod.case using True by simp
    ultimately show ?thesis by (simp add: fl)
  next
    case neg: False
    with False have t: "t = - int (nat \<bar>t\<bar>)" by simp
    have "- int ((nat \<bar>t\<bar> + 999) div 1000) = t div 1000"
      using minus_div_1000 [of "nat \<bar>t\<bar>"] t by simp
    moreover have "floor1000 t = - int ((n * 2 ^ 0 + 2 ^ s - 1) div 2 ^ s)"
      unfolding floor1000_def Let_def rq prod.case using neg False by simp
    ultimately show ?thesis using ce by simp
  qed
qed


lemma digitValue_digit: "d < 10 \<Longrightarrow> digitValue (char_of (48 + d)) = Some (d::nat)"
  by (simp add: digitValue_def Let_def)

lemma isRadixDigit_digit: "(d::nat) < 10 \<Longrightarrow> isRadixDigit 10 (char_of (48 + d))"
  by (simp add: isRadixDigit_def digitValue_digit)

lemma show_nat_nonempty: "show_nat n \<noteq> []"
  by (subst show_nat.simps) simp

lemma show_nat_digits: "list_all (isRadixDigit 10) (show_nat n)"
proof (induction n rule: show_nat.induct)
  case (1 n)
  show ?case
  proof (cases "n < 10")
    case True
    then show ?thesis by (subst show_nat.simps) (simp add: isRadixDigit_digit)
  next
    case False
    with 1 show ?thesis by (subst show_nat.simps) (simp add: isRadixDigit_digit)
  qed
qed

lemma mathInt_snoc:
  "mathInt R (Z @ [c]) = (case digitValue c of Some d \<Rightarrow> mathInt R Z * R + d | None \<Rightarrow> mathInt R Z)"
  by (simp add: mathInt_def split: option.splits)

lemma mathInt_show_nat: "mathInt 10 (show_nat n) = n"
proof (induction n rule: show_nat.induct)
  case (1 n)
  show ?case
  proof (cases "n < 10")
    case True
    then show ?thesis by (subst show_nat.simps) (simp add: mathInt_def digitValue_digit)
  next
    case False
    with 1 show ?thesis by (subst show_nat.simps) (simp add: mathInt_snoc digitValue_digit)
  qed
qed

lemma dec_digit_range:
  "isRadixDigit 10 c \<Longrightarrow> 48 \<le> (of_char c :: nat) \<and> (of_char c :: nat) \<le> 57"
  by (auto simp: isRadixDigit_def digitValue_def Let_def split: if_splits)

lemma dec_digit_not_special:
  assumes "isRadixDigit 10 c"
  shows "\<not> isWhiteSpace c" and "c \<noteq> CHR ''-''" and "c \<noteq> CHR ''+''"
    and "c \<noteq> CHR ''x''" and "c \<noteq> CHR ''X''"
  using dec_digit_range [OF assms] by (auto simp: isWhiteSpace_def)

lemma takeWhile_all: "list_all P xs \<Longrightarrow> takeWhile P xs = xs"
  by (induction xs) auto

lemma parseInt_Cons_digit:
  assumes c: "isRadixDigit 10 c" and r: "list_all (isRadixDigit 10) r"
  shows "parseInt (c # r) = toDouble (int (mathInt 10 (c # r)))"
proof -
  have dw: "dropWhile isWhiteSpace (c # r) = c # r"
    using c by (simp add: dec_digit_not_special)
  have tw: "takeWhile (isRadixDigit 10) (c # r) = c # r"
    using c r by (simp add: takeWhile_all)
  have hex: "(case r of
               [] \<Rightarrow> (10, c # r)
             | b # r' \<Rightarrow>
                 if c = CHR ''0'' \<and> (b = CHR ''x'' \<or> b = CHR ''X'') then (16 :: nat, r')
                 else (10, c # r)) = (10, c # r)"
    using r by (cases r) (auto simp: dec_digit_not_special)
  show ?thesis
    unfolding parseInt_def dw Let_def
    using c by (simp only: dec_digit_not_special list.case if_False hex prod.case tw) simp
qed

lemma parseInt_minus_Cons_digit:
  assumes c: "isRadixDigit 10 c" and r: "list_all (isRadixDigit 10) r"
  shows "parseInt (CHR ''-'' # c # r) = toDouble (- int (mathInt 10 (c # r)))"
proof -
  have dw: "dropWhile isWhiteSpace (CHR ''-'' # c # r) = CHR ''-'' # c # r"
    by (simp add: isWhiteSpace_def)
  have tw: "takeWhile (isRadixDigit 10) (c # r) = c # r"
    using c r by (simp add: takeWhile_all)
  have hex: "(case r of
               [] \<Rightarrow> (10, c # r)
             | b # r' \<Rightarrow>
                 if c = CHR ''0'' \<and> (b = CHR ''x'' \<or> b = CHR ''X'') then (16 :: nat, r')
                 else (10, c # r)) = (10, c # r)"
    using r by (cases r) (auto simp: dec_digit_not_special)
  show ?thesis
    unfolding parseInt_def dw Let_def
    by (simp only: list.case simp_thms if_True hex prod.case tw) simp
qed

lemma show_nat_Cons:
  obtains c r where "show_nat n = c # r" and "isRadixDigit 10 c"
    and "list_all (isRadixDigit 10) r"
  using show_nat_nonempty [of n] show_nat_digits [of n]
  by (cases "show_nat n") auto

lemma parseInt_show_int: "parseInt (show_int i) = toDouble i"
proof -
  obtain c r where cr: "show_nat (nat \<bar>i\<bar>) = c # r" and c: "isRadixDigit 10 c"
    and r: "list_all (isRadixDigit 10) r"
    by (rule show_nat_Cons)
  have m: "mathInt 10 (c # r) = nat \<bar>i\<bar>"
    using mathInt_show_nat [of "nat \<bar>i\<bar>"] unfolding cr by simp
  show ?thesis
  proof (cases "i < 0")
    case True
    then have "show_int i = CHR ''-'' # c # r"
      using cr by (simp add: show_int_def abs_if)
    with True show ?thesis
      by (simp add: parseInt_minus_Cons_digit [OF c r] m)
  next
    case False
    then have "show_int i = c # r"
      using cr by (simp add: show_int_def abs_if)
    with False show ?thesis
      by (simp add: parseInt_Cons_digit [OF c r] m)
  qed
qed

lemma string2ll_show_int: "string2ll (show_int i) = Some i"
proof -
  obtain c r where cr: "show_nat (nat \<bar>i\<bar>) = c # r" and c: "isRadixDigit 10 c"
    and r: "list_all (isRadixDigit 10) r"
    by (rule show_nat_Cons)
  have m: "mathInt 10 (c # r) = nat \<bar>i\<bar>"
    using mathInt_show_nat [of "nat \<bar>i\<bar>"] unfolding cr by simp
  show ?thesis
  proof (cases "i < 0")
    case True
    then have s: "show_int i = CHR ''-'' # c # r"
      using cr by (simp add: show_int_def abs_if)
    have v: "- 1 * int (nat \<bar>i\<bar>) = i" using True by simp
    show ?thesis
      unfolding string2ll_def s Let_def
      using c r by (simp only: list.case simp_thms if_True prod.case m v s) simp
  next
    case False
    then have s: "show_int i = c # r"
      using cr by (simp add: show_int_def abs_if)
    have v: "1 * int (nat \<bar>i\<bar>) = i" using False by simp
    have "c \<noteq> CHR ''-''" using c by (simp add: dec_digit_not_special)
    then show ?thesis
      unfolding string2ll_def s Let_def
      using c r by (simp only: list.case simp_thms if_False prod.case m v s) simp
  qed
qed

lemma string2ll_Some: "string2ll s = Some v \<Longrightarrow> s = show_int v"
  by (auto simp: string2ll_def Let_def split: prod.splits if_splits)

section \<open>Running the service\<close>

lemma getCircuitBreakerStatus_world:
  "snd (getCircuitBreakerStatus config k thr w) = emit (Get (getCircuitBreakerKey config k)) w"
  by (simp add: getCircuitBreakerStatus_def RedisService_get_def split: option.splits)

lemma getCircuitBreakerStatus_absent:
  "redis w (getCircuitBreakerKey config k) = None \<Longrightarrow>
   fst (getCircuitBreakerStatus config k thr w) = CLOSED"
  by (simp add: getCircuitBreakerStatus_def RedisService_get_def)

lemma getCircuitBreakerStatus_present:
  "redis w (getCircuitBreakerKey config k) = Some e \<Longrightarrow>
   fst (getCircuitBreakerStatus config k thr w) =
     (if val e = [] then CLOSED
      else if number_ge (parseInt (val e)) thr then OPEN else CLOSED)"
  by (simp add: getCircuitBreakerStatus_def RedisService_get_def)

lemma show_int_nonempty: "show_int i \<noteq> []"
  by (simp add: show_int_def show_nat_nonempty)

lemma show_int_inj:
  assumes "show_int i = show_int j"
  shows "i = j"
proof -
  have "Some i = string2ll (show_int i)" by (simp only: string2ll_show_int)
  also have "\<dots> = string2ll (show_int j)" by (simp only: assms)
  also have "\<dots> = Some j" by (simp only: string2ll_show_int)
  finally show ?thesis by simp
qed

lemma execute_OPEN:
  assumes "fst (getCircuitBreakerStatus config k thr w) = OPEN"
  shows "execute config fn k thr tmo fallback w =
     (let fb = (if fallback = JUndefined then JNull else fallback)
      in (if truthy fb then Inr fb
          else Inl (HttpException ''Service is unavailable - Circuit Breaker is open''
                      SERVICE_UNAVAILABLE),
          emit (Get (getCircuitBreakerKey config k)) w))"
proof -
  obtain st w1 where g: "getCircuitBreakerStatus config k thr w = (st, w1)"
    by (cases "getCircuitBreakerStatus config k thr w")
  with assms getCircuitBreakerStatus_world [of config k thr w]
  have "st = OPEN" and "w1 = emit (Get (getCircuitBreakerKey config k)) w" by simp_all
  then show ?thesis by (simp add: execute_def g Let_def)
qed

lemma execute_CLOSED:
  assumes "fst (getCircuitBreakerStatus config k thr w) = CLOSED"
  shows "execute config fn k thr tmo fallback w =
     (let w1 = emit Invoke (emit (Get (getCircuitBreakerKey config k)) w)
      in case fn of
           Inr result \<Rightarrow> (Inr result, RedisService_del (getCircuitBreakerKey config k) w1)
         | Inl error \<Rightarrow>
             if tripWorthy error then
               (case handleCircuitBreakerError config k tmo w1 of
                  (Inl store_error, w2) \<Rightarrow> (Inl store_error, w2)
                | (Inr u, w2) \<Rightarrow> (Inl error, w2))
             else (Inl error, w1))"
proof -
  obtain st w1 where g: "getCircuitBreakerStatus config k thr w = (st, w1)"
    by (cases "getCircuitBreakerStatus config k thr w")
  with assms getCircuitBreakerStatus_world [of config k thr w]
  have "st = CLOSED" and "w1 = emit (Get (getCircuitBreakerKey config k)) w" by simp_all
  then show ?thesis by (simp add: execute_def g Let_def)
qed

lemma run_INCR_EXPIRE:
  assumes "failureCount db K = Some c"
  shows "run_commands [INCR K, EXPIRE K (Fin secs)] db =
     ([(None, JNum (c + 1)), (None, JNum 1)],
      db(K \<mapsto> \<lparr>val = show_int (c + 1), ttl = Some secs\<rparr>))"
proof (cases "db K")
  case None
  with assms have "c = 0" by (simp add: failureCount_def)
  with None show ?thesis by simp
next
  case (Some e)
  with assms have "string2ll (val e) = Some c" by (simp add: failureCount_def)
  with Some show ?thesis by (cases e) simp
qed

lemma run_INCR_reply:
  "fst (fst (run_command (INCR K) db)) =
     (if failureCount db K = None
      then Some ''ERR value is not an integer or out of range'' else None)"
  by (simp add: failureCount_def split: option.splits)

lemma run_EXPIRE_reply:
  "fst (fst (run_command (EXPIRE K seconds) db)) =
     (case seconds of
        Fin secs \<Rightarrow> None
      | _ \<Rightarrow> Some ''ERR value is not an integer or out of range'')"
  by (simp split: number.splits option.splits)

lemma handleCircuitBreakerError_ok:
  assumes "failureCount (redis w) (getCircuitBreakerKey config k) = Some c"
  shows "handleCircuitBreakerError config k (Fin tmo) w =
     (Inr (),
      \<lparr>redis = (redis w)(getCircuitBreakerKey config k \<mapsto>
                  \<lparr>val = show_int (c + 1), ttl = Some (floor1000 tmo)\<rparr>),
       events = events w @
         [Exec [INCR (getCircuitBreakerKey config k),
                EXPIRE (getCircuitBreakerKey config k) (Fin (floor1000 tmo))]]\<rparr>)"
  by (simp add: handleCircuitBreakerError_def executePipeline_def Let_def
      run_INCR_EXPIRE [OF assms] reply_error_def emit_def del: run_commands.simps)

lemma floorSeconds_Fin: "(\<exists>secs. floorSeconds tmo = Fin secs) \<longleftrightarrow> (\<exists>t. tmo = Fin t)"
  by (cases tmo) simp_all

lemma handleCircuitBreakerError_result:
  "fst (handleCircuitBreakerError config k tmo w) =
     (if failureCount (redis w) (getCircuitBreakerKey config k) = None
      then Inl (Error ''Failed to increment circuit breaker error count'')
      else case tmo of
             Fin t \<Rightarrow> Inr ()
           | _ \<Rightarrow> Inl (Error ''Failed to set circuit breaker error count expiration''))"
proof -
  let ?K = "getCircuitBreakerKey config k"
  obtain r1 db1 where c1: "run_command (INCR ?K) (redis w) = (r1, db1)"
    by (cases "run_command (INCR ?K) (redis w)")
  obtain r2 db2 where c2: "run_command (EXPIRE ?K (floorSeconds tmo)) db1 = (r2, db2)"
    by (cases "run_command (EXPIRE ?K (floorSeconds tmo)) db1")
  have e1: "fst r1 = (if failureCount (redis w) ?K = None
      then Some ''ERR value is not an integer or out of range'' else None)"
    using run_INCR_reply [of ?K "redis w"] by (simp only: c1 fst_conv)
  have e2: "fst r2 = (case floorSeconds tmo of
        Fin secs \<Rightarrow> None
      | _ \<Rightarrow> Some ''ERR value is not an integer or out of range'')"
    using run_EXPIRE_reply [of ?K "floorSeconds tmo" db1] by (simp only: c2 fst_conv)
  have "run_commands [INCR ?K, EXPIRE ?K (floorSeconds tmo)] (redis w) = ([r1, r2], db2)"
    by (simp add: c1 c2 del: run_command.simps)
  then show ?thesis
    using e1 e2
    by (cases tmo)
      (simp_all add: handleCircuitBreakerError_def executePipeline_def Let_def
        reply_error_def del: run_commands.simps run_command.simps)
qed

section \<open>The derived state\<close>

lemma example_world_status:
  "fst (getCircuitBreakerStatus example_options ''checkBalance'' thr (example_world v)) =
     (if v = [] then CLOSED
      else if number_ge (parseInt v) thr then OPEN else CLOSED)"
  by (simp add: getCircuitBreakerStatus_present [of _ _ _ "\<lparr>val = v, ttl = None\<rparr>"]
      example_world_def)

lemma example_world_failureCount:
  "failureCount (redis (example_world v)) (getCircuitBreakerKey example_options ''checkBalance'')
     = string2ll v"
  by (simp add: failureCount_def example_world_def)

lemma example_key:
  "getCircuitBreakerKey example_options ''checkBalance'' =
     ''circuit-breaker:my-api-service:checkBalance''"
  by (simp add: getCircuitBreakerKey_def example_options_def CIRCUIT_BREAKER_KEY_PREFIX_def
      getCircuitBreakerServiceName_def)

text \<open>
  What the status is for every counter and every threshold, a number or not: the double
  nearest to the counter is compared.
\<close>

lemma status_of_counter:
  assumes "map_option val (redis w (getCircuitBreakerKey config k)) = map_option show_int stored"
  shows "fst (getCircuitBreakerStatus config k thr w) =
           (case stored of
              None \<Rightarrow> CLOSED
            | Some c \<Rightarrow> if number_ge (toDouble c) thr then OPEN else CLOSED)"
proof (cases stored)
  case None
  with assms have "redis w (getCircuitBreakerKey config k) = None" by simp
  then have "fst (getCircuitBreakerStatus config k thr w) = CLOSED"
    by (rule getCircuitBreakerStatus_absent)
  with None show ?thesis by simp
next
  case (Some c)
  with assms obtain e where e: "redis w (getCircuitBreakerKey config k) = Some e"
    and v: "val e = show_int c" by auto
  show ?thesis
    by (simp add: getCircuitBreakerStatus_present [OF e] v show_int_nonempty parseInt_show_int
        Some)
qed

text \<open>
  C1, amended. Let the key hold no value, or the decimal rendering of a counter \<open>c\<close> of
  magnitude at most \<open>2^53\<close>, which a JavaScript number holds exactly (\<open>stored\<close> is
  \<open>None\<close> or \<open>Some c\<close>). For every integer threshold \<open>t\<close>, the derived state is OPEN
  if and only if the counter is present and \<open>c \<ge> t\<close>, and CLOSED if and only if the
  counter is absent or \<open>c < t\<close>.
\<close>

theorem status_open_iff_safe_counter_reaches_threshold:
  assumes "map_option val (redis w (getCircuitBreakerKey config k)) = map_option show_int stored"
    and "case stored of None \<Rightarrow> True | Some c \<Rightarrow> \<bar>c\<bar> \<le> 2 ^ 53"
  shows "(fst (getCircuitBreakerStatus config k (Fin t) w) = OPEN \<longleftrightarrow>
            (\<exists>c. stored = Some c \<and> t \<le> c)) \<and>
         (fst (getCircuitBreakerStatus config k (Fin t) w) = CLOSED \<longleftrightarrow>
            (stored = None \<or> (\<exists>c. stored = Some c \<and> c < t)))"
proof (cases stored)
  case None
  then show ?thesis by (simp add: status_of_counter [OF assms(1)])
next
  case (Some c)
  with assms(2) have "toDouble c = Fin c" by (simp add: toDouble_exact)
  with Some show ?thesis by (auto simp: status_of_counter [OF assms(1)])
qed

theorem status_open_iff_safe_counter_reaches_threshold_witness:
  "map_option val (redis (example_world ''3'') (getCircuitBreakerKey example_options ''checkBalance''))
     = map_option show_int (Some 3) \<and>
   \<bar>3 :: int\<bar> \<le> 2 ^ 53 \<and>
   fst (getCircuitBreakerStatus example_options ''checkBalance'' (Fin 3) (example_world ''3'')) = OPEN \<and>
   fst (getCircuitBreakerStatus example_options ''checkBalance'' (Fin 4) (example_world ''3'')) = CLOSED"
proof -
  have s: "show_int 3 = ''3''" by code_simp
  have h: "map_option val (redis (example_world ''3'')
             (getCircuitBreakerKey example_options ''checkBalance'')) = map_option show_int (Some 3)"
    by (simp add: example_world_def s)
  have b: "case Some (3 :: int) of None \<Rightarrow> True | Some c \<Rightarrow> \<bar>c\<bar> \<le> 2 ^ 53" by simp
  from status_open_iff_safe_counter_reaches_threshold [OF h b, of 3]
    status_open_iff_safe_counter_reaches_threshold [OF h b, of 4] h
  show ?thesis by simp
qed

text \<open>
  C1 as stated fails above \<open>2^53\<close>: the key holds the counter 9007199254740995, the
  threshold is 9007199254740996, a number that a double holds, and the counter is below
  it; \<^verbatim>\<open>parseInt\<close> reads the counter as 9007199254740996 and the state is OPEN.
\<close>

theorem status_open_below_threshold_counterexample:
  "failureCount (redis (example_world ''9007199254740995''))
     (getCircuitBreakerKey example_options ''checkBalance'') = Some 9007199254740995 \<and>
   toDouble 9007199254740996 = Fin 9007199254740996 \<and>
   (9007199254740995 :: int) < 9007199254740996 \<and>
   parseInt ''9007199254740995'' = Fin 9007199254740996 \<and>
   fst (getCircuitBreakerStatus example_options ''checkBalance'' (Fin 9007199254740996)
          (example_world ''9007199254740995'')) = OPEN"
proof -
  have c: "string2ll ''9007199254740995'' = Some 9007199254740995"
    by (simp add: string2ll_def mathInt_def digitValue_def isRadixDigit_def show_int_def
        show_nat.simps char_of_def bit_Suc_0_iff)
  have p: "parseInt ''9007199254740995'' = Fin 9007199254740996"
    by (simp add: parseInt_def isWhiteSpace_def mathInt_def digitValue_def isRadixDigit_def
        toDouble_def roundMagnitude_def bitlen.simps)
  have t: "toDouble 9007199254740996 = Fin 9007199254740996"
    by (simp add: toDouble_def roundMagnitude_def bitlen.simps)
  show ?thesis
    by (simp add: example_world_failureCount c p t example_world_status)
qed

text \<open>
  C10, amended. Deriving the state is a total function of the stored string: it returns a
  state for every string and has no failing branch. The empty string gives CLOSED, and so
  does a string that \<^verbatim>\<open>parseInt\<close> reads as NaN. The string \<^verbatim>\<open>0\<close> gives OPEN exactly when
  \<^verbatim>\<open>0 >= threshold\<close>, so CLOSED for every positive threshold. In general the state is OPEN
  exactly when the number that \<^verbatim>\<open>parseInt\<close> reads is greater than or equal to the
  threshold.
\<close>

theorem status_of_any_stored_string:
  assumes "redis w (getCircuitBreakerKey config k) = Some e"
  shows "(val e = [] \<longrightarrow> fst (getCircuitBreakerStatus config k thr w) = CLOSED) \<and>
         (parseInt (val e) = NaN \<longrightarrow> fst (getCircuitBreakerStatus config k thr w) = CLOSED) \<and>
         (val e = ''0'' \<longrightarrow>
            (fst (getCircuitBreakerStatus config k thr w) = OPEN \<longleftrightarrow> number_ge (Fin 0) thr)) \<and>
         (val e = ''0'' \<and> (\<exists>t. thr = Fin t \<and> 0 < t) \<longrightarrow>
            fst (getCircuitBreakerStatus config k thr w) = CLOSED) \<and>
         (fst (getCircuitBreakerStatus config k thr w) = OPEN \<longleftrightarrow>
            number_ge (parseInt (val e)) thr)"
proof -
  have z: "parseInt ''0'' = Fin 0" by code_simp
  have n: "parseInt [] = NaN" by code_simp
  show ?thesis
    by (auto simp: getCircuitBreakerStatus_present [OF assms] z n)
qed

theorem status_of_any_stored_string_witness:
  "redis (example_world ''0'') (getCircuitBreakerKey example_options ''checkBalance'')
     = Some \<lparr>val = ''0'', ttl = None\<rparr> \<and>
   fst (getCircuitBreakerStatus example_options ''checkBalance'' (Fin 3) (example_world ''0'')) = CLOSED \<and>
   redis (example_world ''12abc'') (getCircuitBreakerKey example_options ''checkBalance'')
     = Some \<lparr>val = ''12abc'', ttl = None\<rparr> \<and>
   fst (getCircuitBreakerStatus example_options ''checkBalance'' (Fin 3) (example_world ''12abc'')) = OPEN \<and>
   redis (example_world ''abc'') (getCircuitBreakerKey example_options ''checkBalance'')
     = Some \<lparr>val = ''abc'', ttl = None\<rparr> \<and>
   fst (getCircuitBreakerStatus example_options ''checkBalance'' (Fin 3) (example_world ''abc'')) = CLOSED"
proof -
  have h0: "redis (example_world ''0'') (getCircuitBreakerKey example_options ''checkBalance'')
     = Some \<lparr>val = ''0'', ttl = None\<rparr>"
    by (simp add: example_world_def)
  have h1: "redis (example_world ''12abc'') (getCircuitBreakerKey example_options ''checkBalance'')
     = Some \<lparr>val = ''12abc'', ttl = None\<rparr>"
    by (simp add: example_world_def)
  have h2: "redis (example_world ''abc'') (getCircuitBreakerKey example_options ''checkBalance'')
     = Some \<lparr>val = ''abc'', ttl = None\<rparr>"
    by (simp add: example_world_def)
  have p1: "parseInt ''12abc'' = Fin 12" by code_simp
  have p2: "parseInt ''abc'' = NaN" by code_simp
  from status_of_any_stored_string [OF h0, of "Fin 3"] status_of_any_stored_string [OF h1, of "Fin 3"]
    status_of_any_stored_string [OF h2, of "Fin 3"] h0 h1 h2 p1 p2
  show ?thesis by simp
qed

text \<open>
  C10 as stated fails for the string \<^verbatim>\<open>0\<close>: it is not empty, \<^verbatim>\<open>parseInt\<close> reads it as 0,
  and with the threshold 0 the state is OPEN.
\<close>

theorem status_of_zero_string_counterexample:
  "redis (example_world ''0'') (getCircuitBreakerKey example_options ''checkBalance'')
     = Some \<lparr>val = ''0'', ttl = None\<rparr> \<and>
   parseInt ''0'' = Fin 0 \<and>
   fst (getCircuitBreakerStatus example_options ''checkBalance'' (Fin 0) (example_world ''0'')) = OPEN"
proof -
  have z: "parseInt ''0'' = Fin 0" by code_simp
  show ?thesis
    by (simp add: example_world_status z) (simp add: example_world_def)
qed

section \<open>Calls while the circuit is CLOSED\<close>

lemma emit_simps [simp]:
  "redis (emit ev w) = redis w" "events (emit ev w) = events w @ [ev]"
  by (simp_all add: emit_def)

lemma RedisService_del_simps [simp]:
  "redis (RedisService_del k w) = (redis w)(k := None)"
  "events (RedisService_del k w) = events w @ [Del k]"
  by (simp_all add: RedisService_del_def)

text \<open>
  A failure that the test of \<^verbatim>\<open>execute\<close> does not count leaves the store as it was and is
  thrown on; the read of the counter and the invocation are the only requests.
\<close>

lemma uncounted_failure_leaves_store:
  assumes "fst (getCircuitBreakerStatus config k thr w) = CLOSED"
    and "fn = Inl err" and "\<not> tripWorthy err"
  shows "redis (snd (execute config fn k thr tmo fallback w)) = redis w \<and>
         events (snd (execute config fn k thr tmo fallback w)) =
           events w @ [Get (getCircuitBreakerKey config k), Invoke] \<and>
         fst (execute config fn k thr tmo fallback w) = Inl err"
  using assms(2,3) by (simp add: execute_CLOSED [OF assms(1)] Let_def)

text \<open>
  The test counts what the specification calls trip-worthy, and every
  \<^verbatim>\<open>HttpException\<close> with a status above 599 besides.
\<close>

lemma tripWorthy_iff_spec:
  "tripWorthy err \<longleftrightarrow>
     tripWorthy_spec err \<or> (\<exists>msg status. err = HttpException msg status \<and> 600 \<le> status)"
  by (cases err) auto

text \<open>
  C7. The state is CLOSED (counter 2, threshold 3) and the protected operation fails with
  an \<^verbatim>\<open>HttpException\<close> of status 600, which is not trip-worthy: it is neither 5xx nor 429.
  The call mutates the store all the same: the counter goes from 2 to 3 and gets a time
  to live of 10 seconds.
\<close>

theorem status_600_failure_mutates_store:
  "fst (getCircuitBreakerStatus example_options ''checkBalance'' (Fin 3) (example_world ''2'')) = CLOSED \<and>
   \<not> tripWorthy_spec (HttpException ''Upstream failure'' 600) \<and>
   redis (example_world ''2'') (getCircuitBreakerKey example_options ''checkBalance'')
     = Some \<lparr>val = ''2'', ttl = None\<rparr> \<and>
   redis (snd (execute example_options (Inl (HttpException ''Upstream failure'' 600))
                 ''checkBalance'' (Fin 3) (Fin 10000) JNull (example_world ''2'')))
     (getCircuitBreakerKey example_options ''checkBalance'') = Some \<lparr>val = ''3'', ttl = Some 10\<rparr>"
proof -
  have p: "parseInt ''2'' = Fin 2" by code_simp
  have q: "string2ll ''2'' = Some 2" by code_simp
  have s: "show_int 3 = ''3''" by code_simp
  have h: "fst (getCircuitBreakerStatus example_options ''checkBalance'' (Fin 3)
             (example_world ''2'')) = CLOSED"
    by (simp add: example_world_status p)
  let ?w1 = "emit Invoke (emit (Get (getCircuitBreakerKey example_options ''checkBalance''))
               (example_world ''2''))"
  have f: "failureCount (redis ?w1) (getCircuitBreakerKey example_options ''checkBalance'') = Some 2"
    by (simp add: example_world_failureCount q)
  have t: "floor1000 10000 = 10" by (simp add: floor1000_safe)
  have "redis (example_world ''2'') (getCircuitBreakerKey example_options ''checkBalance'')
     = Some \<lparr>val = ''2'', ttl = None\<rparr>"
    by (simp add: example_world_def)
  then show ?thesis
    by (simp add: h execute_CLOSED [OF h] Let_def handleCircuitBreakerError_ok [OF f] s t)
qed

text \<open>
  C5. When the derived state is CLOSED and the protected operation succeeds, the call
  returns the operation's result and deletes the counter at the key: afterwards the key
  is absent (count 0) and the status check that follows reports CLOSED, whatever was
  stored before.
\<close>

theorem success_clears_counter:
  assumes "fst (getCircuitBreakerStatus config k thr w) = CLOSED"
    and "fn = Inr result"
  shows "let w' = snd (execute config fn k thr tmo fallback w)
         in fst (execute config fn k thr tmo fallback w) = Inr result \<and>
            redis w' (getCircuitBreakerKey config k) = None \<and>
            failureCount (redis w') (getCircuitBreakerKey config k) = Some 0 \<and>
            fst (getCircuitBreakerStatus config k thr w') = CLOSED \<and>
            events w' = events w @ [Get (getCircuitBreakerKey config k), Invoke,
                                    Del (getCircuitBreakerKey config k)]"
  using assms(2)
  by (simp add: execute_CLOSED [OF assms(1)] Let_def failureCount_def
      getCircuitBreakerStatus_absent)

theorem success_clears_counter_witness:
  "fst (getCircuitBreakerStatus example_options ''checkBalance'' (Fin 3) (example_world ''2'')) = CLOSED \<and>
   failureCount (redis (example_world ''2'')) (getCircuitBreakerKey example_options ''checkBalance'')
     = Some 2 \<and>
   (let w' = snd (execute example_options (Inr (JNum 100)) ''checkBalance'' (Fin 3) (Fin 10000) JNull
                    (example_world ''2''))
    in fst (execute example_options (Inr (JNum 100)) ''checkBalance'' (Fin 3) (Fin 10000) JNull
              (example_world ''2'')) = Inr (JNum 100) \<and>
       failureCount (redis w') (getCircuitBreakerKey example_options ''checkBalance'') = Some 0 \<and>
       fst (getCircuitBreakerStatus example_options ''checkBalance'' (Fin 3) w') = CLOSED)"
proof -
  have p: "parseInt ''2'' = Fin 2" by code_simp
  have q: "string2ll ''2'' = Some 2" by code_simp
  have h: "fst (getCircuitBreakerStatus example_options ''checkBalance'' (Fin 3)
             (example_world ''2'')) = CLOSED"
    by (simp add: example_world_status p)
  from success_clears_counter [OF h refl, of "JNum 100" "Fin 10000" JNull] h
  show ?thesis by (simp add: Let_def example_world_failureCount q)
qed




text \<open>
  C6, amended. When the derived state is CLOSED and the protected operation fails, the
  call throws exactly the error of the operation, trip-worthy or not, unless the error is
  trip-worthy and the store answers a command of the batch with an error. If it is the
  increment (the key holds a string that is not an integer), the call throws
  \<^verbatim>\<open>Error('Failed to increment circuit breaker error count')\<close> in place of the error of
  the operation; if the increment succeeds and it is the time to live (the timeout is
  \<^verbatim>\<open>undefined\<close>, NaN or an infinity), the call throws
  \<^verbatim>\<open>Error('Failed to set circuit breaker error count expiration')\<close>.
\<close>

theorem closed_failure_rethrown_unless_store_error:
  assumes "fst (getCircuitBreakerStatus config k thr w) = CLOSED"
    and "fn = Inl err"
  shows "fst (execute config fn k thr tmo fallback w) =
           (if tripWorthy err \<and> failureCount (redis w) (getCircuitBreakerKey config k) = None
            then Inl (Error ''Failed to increment circuit breaker error count'')
            else if tripWorthy err \<and> (\<forall>t. tmo \<noteq> Fin t)
            then Inl (Error ''Failed to set circuit breaker error count expiration'')
            else Inl err)"
proof (cases "tripWorthy err")
  case False
  with assms(2) show ?thesis by (simp add: execute_CLOSED [OF assms(1)] Let_def)
next
  case True
  let ?w1 = "emit Invoke (emit (Get (getCircuitBreakerKey config k)) w)"
  obtain r w2 where hw: "handleCircuitBreakerError config k tmo ?w1 = (r, w2)"
    by (cases "handleCircuitBreakerError config k tmo ?w1")
  have r: "r = (if failureCount (redis w) (getCircuitBreakerKey config k) = None
      then Inl (Error ''Failed to increment circuit breaker error count'')
      else case tmo of
             Fin t \<Rightarrow> Inr ()
           | _ \<Rightarrow> Inl (Error ''Failed to set circuit breaker error count expiration''))"
    using handleCircuitBreakerError_result [of config k tmo ?w1] by (simp add: hw)
  have "fst (execute config fn k thr tmo fallback w) =
          (case r of Inl store_error \<Rightarrow> Inl store_error | Inr u \<Rightarrow> Inl err)"
    using True assms(2)
    by (simp add: execute_CLOSED [OF assms(1)] Let_def hw split: sum.splits)
  also have "\<dots> =
           (if failureCount (redis w) (getCircuitBreakerKey config k) = None
            then Inl (Error ''Failed to increment circuit breaker error count'')
            else if \<forall>t. tmo \<noteq> Fin t
            then Inl (Error ''Failed to set circuit breaker error count expiration'')
            else Inl err)"
    unfolding r by (cases tmo) simp_all
  finally show ?thesis using True by simp
qed

theorem closed_failure_rethrown_unless_store_error_witness:
  "fst (getCircuitBreakerStatus example_options ''checkBalance'' (Fin 3) (example_world ''2'')) = CLOSED \<and>
   fst (execute example_options (Inl (HttpException ''Bad Gateway'' 502)) ''checkBalance''
          (Fin 3) (Fin 10000) JNull (example_world ''2'')) = Inl (HttpException ''Bad Gateway'' 502) \<and>
   fst (execute example_options (Inl (HttpException ''Bad Gateway'' 502)) ''checkBalance''
          (Fin 3) NaN JNull (example_world ''2''))
     = Inl (Error ''Failed to set circuit breaker error count expiration'')"
proof -
  have p: "parseInt ''2'' = Fin 2" by code_simp
  have q: "string2ll ''2'' = Some 2" by code_simp
  have h: "fst (getCircuitBreakerStatus example_options ''checkBalance'' (Fin 3)
             (example_world ''2'')) = CLOSED"
    by (simp add: example_world_status p)
  from closed_failure_rethrown_unless_store_error [OF h refl, of "HttpException ''Bad Gateway'' 502"
      "Fin 10000" JNull]
    closed_failure_rethrown_unless_store_error [OF h refl, of "HttpException ''Bad Gateway'' 502"
      NaN JNull] h
  show ?thesis by (simp add: example_world_failureCount q)
qed

text \<open>
  C6 as stated fails: with \<^verbatim>\<open>abc\<close> under the key the state is CLOSED, the operation
  fails with status 502, and the caller receives the error of the store, not the 502.
\<close>

theorem closed_failure_replaced_by_store_error:
  "fst (getCircuitBreakerStatus example_options ''checkBalance'' (Fin 3) (example_world ''abc'')) = CLOSED \<and>
   fst (execute example_options (Inl (HttpException ''Bad Gateway'' 502)) ''checkBalance''
          (Fin 3) (Fin 10000) JNull (example_world ''abc''))
     = Inl (Error ''Failed to increment circuit breaker error count'') \<and>
   fst (execute example_options (Inl (HttpException ''Bad Gateway'' 502)) ''checkBalance''
          (Fin 3) (Fin 10000) JNull (example_world ''abc''))
     \<noteq> Inl (HttpException ''Bad Gateway'' 502)"
proof -
  have p: "parseInt ''abc'' = NaN" by code_simp
  have q: "string2ll ''abc'' = None" by code_simp
  have h: "fst (getCircuitBreakerStatus example_options ''checkBalance'' (Fin 3)
             (example_world ''abc'')) = CLOSED"
    by (simp add: example_world_status p)
  let ?w1 = "emit Invoke (emit (Get (getCircuitBreakerKey example_options ''checkBalance''))
               (example_world ''abc''))"
  obtain r w2 where hw:
    "handleCircuitBreakerError example_options ''checkBalance'' (Fin 10000) ?w1 = (r, w2)"
    by (cases "handleCircuitBreakerError example_options ''checkBalance'' (Fin 10000) ?w1")
  have "r = Inl (Error ''Failed to increment circuit breaker error count'')"
    using handleCircuitBreakerError_result [of example_options "''checkBalance''" "Fin 10000" ?w1]
    by (simp add: hw example_world_failureCount q)
  then show ?thesis
    by (simp add: h execute_CLOSED [OF h] Let_def hw)
qed

section \<open>Calls while the circuit is OPEN\<close>

lemma open_circuit_short_circuits:
  assumes "fst (getCircuitBreakerStatus config k thr w) = OPEN"
  shows "events (snd (execute config fn k thr tmo fallback w)) =
           events w @ [Get (getCircuitBreakerKey config k)]"
    and "redis (snd (execute config fn k thr tmo fallback w)) = redis w"
    and "truthy fallback \<Longrightarrow> fst (execute config fn k thr tmo fallback w) = Inr fallback"
    and "fallback = JNull \<or> fallback = JUndefined \<Longrightarrow>
         fst (execute config fn k thr tmo fallback w) =
           Inl (HttpException ''Service is unavailable - Circuit Breaker is open'' 503)"
  by (auto simp: execute_OPEN [OF assms] Let_def SERVICE_UNAVAILABLE_def)

text \<open>
  C2. With the counter at the threshold the state is OPEN. A caller that supplies the
  fallback result \<open>0\<close> (a balance, say) does not get it back: \<^verbatim>\<open>if (fallbackResult)\<close>
  takes it for no fallback and the call throws the 503 exception. The operation is not
  invoked: the read of the counter is the only request.
\<close>

theorem falsy_fallback_not_returned:
  "fst (getCircuitBreakerStatus example_options ''checkBalance'' (Fin 3) (example_world ''3'')) = OPEN \<and>
   execute example_options (Inr (JNum 100)) ''checkBalance'' (Fin 3) (Fin 10000) (JNum 0)
     (example_world ''3'')
     = (Inl (HttpException ''Service is unavailable - Circuit Breaker is open'' 503),
        \<lparr>redis = redis (example_world ''3''),
         events = [Get ''circuit-breaker:my-api-service:checkBalance'']\<rparr>)"
proof -
  have p: "parseInt ''3'' = Fin 3" by code_simp
  have h: "fst (getCircuitBreakerStatus example_options ''checkBalance'' (Fin 3)
             (example_world ''3'')) = OPEN"
    by (simp add: example_world_status p)
  show ?thesis
    by (simp add: h execute_OPEN [OF h] SERVICE_UNAVAILABLE_def emit_def example_key)
      (simp add: example_world_def)
qed

section \<open>Classification of errors\<close>

lemma tripWorthy_http_range:
  "status \<le> 599 \<Longrightarrow>
   tripWorthy (HttpException msg status) \<longleftrightarrow> (500 \<le> status \<and> status \<le> 599) \<or> status = 429"
  by auto

text \<open>
  C3. The test of \<^verbatim>\<open>execute\<close> has no upper bound: an \<^verbatim>\<open>HttpException\<close> with status
  600, which is neither 5xx nor 429, is trip-worthy and is counted (the counter goes
  from 2 to 3).
\<close>

theorem status_above_599_is_trip_worthy:
  "tripWorthy (HttpException ''Upstream failure'' 600) \<and>
   fst (getCircuitBreakerStatus example_options ''checkBalance'' (Fin 3) (example_world ''2'')) = CLOSED \<and>
   failureCount
     (redis (snd (execute example_options (Inl (HttpException ''Upstream failure'' 600))
                    ''checkBalance'' (Fin 3) (Fin 10000) JNull (example_world ''2''))))
     (getCircuitBreakerKey example_options ''checkBalance'') = Some 3"
proof -
  have p: "parseInt ''2'' = Fin 2" by code_simp
  have q: "string2ll ''2'' = Some 2" by code_simp
  have h: "fst (getCircuitBreakerStatus example_options ''checkBalance'' (Fin 3)
             (example_world ''2'')) = CLOSED"
    by (simp add: example_world_status p)
  let ?w1 = "emit Invoke (emit (Get (getCircuitBreakerKey example_options ''checkBalance''))
               (example_world ''2''))"
  have f: "failureCount (redis ?w1) (getCircuitBreakerKey example_options ''checkBalance'') = Some 2"
    by (simp add: example_world_failureCount q)
  show ?thesis
    by (simp add: h execute_CLOSED [OF h] Let_def handleCircuitBreakerError_ok [OF f]
        failureCount_def string2ll_show_int)
qed

section \<open>The key used against the store\<close>

lemma handleCircuitBreakerError_events:
  "events (snd (handleCircuitBreakerError config k tmo w)) =
     events w @ [Exec [INCR (getCircuitBreakerKey config k),
                       EXPIRE (getCircuitBreakerKey config k) (floorSeconds tmo)]]"
proof -
  obtain rs db where
    "run_commands [INCR (getCircuitBreakerKey config k),
                   EXPIRE (getCircuitBreakerKey config k) (floorSeconds tmo)] (redis w) = (rs, db)"
    by (cases "run_commands [INCR (getCircuitBreakerKey config k),
                   EXPIRE (getCircuitBreakerKey config k) (floorSeconds tmo)] (redis w)")
  then show ?thesis
    by (simp add: handleCircuitBreakerError_def executePipeline_def Let_def
        del: run_commands.simps)
qed

lemma execute_reads_key_first:
  "take 1 (drop (length (events w)) (events (snd (execute config fn k thr tmo fallback w)))) =
     [Get (getCircuitBreakerKey config k)]"
proof (cases "fst (getCircuitBreakerStatus config k thr w)")
  case OPEN
  then show ?thesis by (simp add: execute_OPEN Let_def)
next
  case CLOSED
  show ?thesis
  proof (cases fn)
    case (Inr result)
    then show ?thesis by (simp add: execute_CLOSED [OF CLOSED] Let_def)
  next
    case (Inl err)
    let ?w1 = "emit Invoke (emit (Get (getCircuitBreakerKey config k)) w)"
    have "events (snd (handleCircuitBreakerError config k tmo ?w1)) =
            events ?w1 @ [Exec [INCR (getCircuitBreakerKey config k),
                                EXPIRE (getCircuitBreakerKey config k) (floorSeconds tmo)]]"
      by (rule handleCircuitBreakerError_events)
    with Inl show ?thesis
      by (cases "handleCircuitBreakerError config k tmo ?w1")
        (auto simp: execute_CLOSED [OF CLOSED] Let_def split: sum.splits)
  qed
qed

text \<open>
  Each layer builds its key as the specification has it: the decorator from the class
  name and the configured key, \<^verbatim>\<open>execute\<close> from the service name of the module and the
  key it is handed.
\<close>

lemma redisKey_spec:
  "redisKey className cfg =
     breakerKey_spec CIRCUIT_BREAKER_KEY_PREFIX className
       (case key cfg of Present ck \<Rightarrow> Some ck | _ \<Rightarrow> None)"
  by (simp add: redisKey_def breakerKey_spec_def CIRCUIT_BREAKER_KEY_PREFIX_def
      split: property.splits)

lemma redisKey_nonempty: "redisKey className cfg \<noteq> []"
  by (simp add: redisKey_def split: property.splits)

lemma getCircuitBreakerKey_spec:
  "ck \<noteq> [] \<Longrightarrow>
   getCircuitBreakerKey config ck =
     breakerKey_spec CIRCUIT_BREAKER_KEY_PREFIX (getCircuitBreakerServiceName config) (Some ck)"
  by (simp add: getCircuitBreakerKey_def breakerKey_spec_def)

text \<open>
  A decorated method reads and writes the store under the composition of the two:
  \<^verbatim>\<open>circuit-breaker:<serviceName>:circuit-breaker:<className>\<close>, followed by
  \<^verbatim>\<open>:<key>\<close> when the merged configuration has a non-empty key.
\<close>

lemma decorated_store_key:
  "getCircuitBreakerKey config (redisKey className (finalConfig classConfig methodConfig)) =
     ''circuit-breaker:'' @ getCircuitBreakerServiceName config @ '':circuit-breaker:'' @ className @
     (case key (finalConfig classConfig methodConfig) of
        Present ck \<Rightarrow> if ck \<noteq> [] then '':'' @ ck else []
      | _ \<Rightarrow> [])"
  and "take 1 (drop (length (events w))
     (events (snd (UseCircuitBreaker config className classConfig methodConfig fn w)))) =
     [Get (getCircuitBreakerKey config (redisKey className (finalConfig classConfig methodConfig)))]"
proof -
  show "getCircuitBreakerKey config (redisKey className (finalConfig classConfig methodConfig)) =
     ''circuit-breaker:'' @ getCircuitBreakerServiceName config @ '':circuit-breaker:'' @ className @
     (case key (finalConfig classConfig methodConfig) of
        Present ck \<Rightarrow> if ck \<noteq> [] then '':'' @ ck else []
      | _ \<Rightarrow> [])"
    by (simp add: getCircuitBreakerKey_def redisKey_def CIRCUIT_BREAKER_KEY_PREFIX_def
        split: property.splits)
  show "take 1 (drop (length (events w))
     (events (snd (UseCircuitBreaker config className classConfig methodConfig fn w)))) =
     [Get (getCircuitBreakerKey config (redisKey className (finalConfig classConfig methodConfig)))]"
    unfolding UseCircuitBreaker_def Let_def by (rule execute_reads_key_first)
qed

text \<open>
  A property that the method configuration has with the value \<^verbatim>\<open>undefined\<close> overrides the
  class configuration: the key of the class is dropped, and threshold and timeout reach
  \<^verbatim>\<open>execute\<close> as \<^verbatim>\<open>undefined\<close>.
\<close>

lemma undefined_property_overrides:
  "redisKey className
     (finalConfig \<lparr>threshold = Present 5, timeout = Present 30000, fallbackResult = Absent,
                    key = Present ''shared''\<rparr>
                  \<lparr>threshold = PresentUndefined, timeout = PresentUndefined,
                    fallbackResult = Absent, key = PresentUndefined\<rparr>)
     = ''circuit-breaker:'' @ className"
  and "numberOf (threshold
     (finalConfig \<lparr>threshold = Present 5, timeout = Present 30000, fallbackResult = Absent,
                    key = Present ''shared''\<rparr>
                  \<lparr>threshold = PresentUndefined, timeout = PresentUndefined,
                    fallbackResult = Absent, key = PresentUndefined\<rparr>)) = NaN"
  by (simp_all add: redisKey_def finalConfig_def spread_def override_def numberOf_def
      DEFAULT_CIRCUIT_BREAKER_CONFIG_def)

text \<open>
  C8. The module is configured with the service name \<^verbatim>\<open>my-api-service\<close>, and the method
  of the class \<^verbatim>\<open>PaymentService\<close> is decorated with the key \<^verbatim>\<open>checkBalance\<close>. The key
  that a call reads from the store carries the prefix twice, with the service name and
  the class name: it is neither of the keys that the specification's construction gives
  for this scope and this key. A direct call of \<^verbatim>\<open>execute\<close> with the key
  \<^verbatim>\<open>checkBalance\<close> uses the key of the specification.
\<close>

theorem decorated_call_prefixes_key_twice:
  "take 1 (events (snd (UseCircuitBreaker example_options ''PaymentService''
       \<lparr>threshold = Absent, timeout = Absent, fallbackResult = Absent, key = Absent\<rparr>
       \<lparr>threshold = Absent, timeout = Absent, fallbackResult = Absent,
         key = Present ''checkBalance''\<rparr>
       (Inr (JNum 100)) empty_world))) =
     [Get ''circuit-breaker:my-api-service:circuit-breaker:PaymentService:checkBalance''] \<and>
   ''circuit-breaker:my-api-service:circuit-breaker:PaymentService:checkBalance'' \<noteq>
     breakerKey_spec CIRCUIT_BREAKER_KEY_PREFIX ''PaymentService'' (Some ''checkBalance'') \<and>
   ''circuit-breaker:my-api-service:circuit-breaker:PaymentService:checkBalance'' \<noteq>
     breakerKey_spec CIRCUIT_BREAKER_KEY_PREFIX ''my-api-service'' (Some ''checkBalance'') \<and>
   take 1 (events (snd (execute example_options (Inr (JNum 100)) ''checkBalance'' (Fin 3)
       (Fin 10000) JNull empty_world))) =
     [Get (breakerKey_spec CIRCUIT_BREAKER_KEY_PREFIX ''my-api-service'' (Some ''checkBalance''))]"
proof -
  have e: "length (events empty_world) = 0" by (simp add: empty_world_def)
  have k: "getCircuitBreakerKey example_options (redisKey ''PaymentService''
       (finalConfig \<lparr>threshold = Absent, timeout = Absent, fallbackResult = Absent, key = Absent\<rparr>
       \<lparr>threshold = Absent, timeout = Absent, fallbackResult = Absent,
         key = Present ''checkBalance''\<rparr>))
     = ''circuit-breaker:my-api-service:circuit-breaker:PaymentService:checkBalance''"
    by (simp add: getCircuitBreakerKey_def redisKey_def finalConfig_def spread_def override_def
        DEFAULT_CIRCUIT_BREAKER_CONFIG_def example_options_def CIRCUIT_BREAKER_KEY_PREFIX_def
        getCircuitBreakerServiceName_def)
  have d: "take 1 (drop (length (events empty_world))
     (events (snd (UseCircuitBreaker example_options ''PaymentService''
       \<lparr>threshold = Absent, timeout = Absent, fallbackResult = Absent, key = Absent\<rparr>
       \<lparr>threshold = Absent, timeout = Absent, fallbackResult = Absent,
         key = Present ''checkBalance''\<rparr>
       (Inr (JNum 100)) empty_world)))) =
     [Get ''circuit-breaker:my-api-service:circuit-breaker:PaymentService:checkBalance'']"
    unfolding UseCircuitBreaker_def Let_def by (simp only: execute_reads_key_first k)
  have x: "take 1 (drop (length (events empty_world))
     (events (snd (execute example_options (Inr (JNum 100)) ''checkBalance'' (Fin 3)
       (Fin 10000) JNull empty_world)))) =
     [Get (getCircuitBreakerKey example_options ''checkBalance'')]"
    by (rule execute_reads_key_first)
  from d x show ?thesis
    by (simp add: e breakerKey_spec_def CIRCUIT_BREAKER_KEY_PREFIX_def example_key)
qed

section \<open>Failures recorded by several callers\<close>

lemma recordFailures_counts:
  "failureCount (redis w) (getCircuitBreakerKey config k) = Some c \<Longrightarrow>
   failureCount (redis (snd (recordFailures config k tmos w))) (getCircuitBreakerKey config k)
     = Some (c + int (length tmos)) \<and>
   fst (recordFailures config k tmos w) = replicate (length tmos) (Inr ())"
proof (induction tmos arbitrary: w c)
  case Nil
  then show ?case by simp
next
  case (Cons tmo tmos)
  obtain w1 where h: "handleCircuitBreakerError config k (Fin tmo) w = (Inr (), w1)"
    and w1: "redis w1 = (redis w)(getCircuitBreakerKey config k \<mapsto>
                \<lparr>val = show_int (c + 1), ttl = Some (floor1000 tmo)\<rparr>)"
    by (simp add: handleCircuitBreakerError_ok [OF Cons.prems])
  have "failureCount (redis w1) (getCircuitBreakerKey config k) = Some (c + 1)"
    by (simp add: w1 failureCount_def string2ll_show_int)
  from Cons.IH [OF this] show ?case
    by (auto simp: h split: prod.splits)
qed

text \<open>
  C9. Let \<open>N\<close> callers record a trip-worthy failure against the same key, which holds
  no counter before. The store runs their batches one at a time, in any order (the list
  gives the order, and the timeout of each caller). Every batch succeeds and the counter
  is exactly \<open>N\<close> afterwards: no increment is lost.
\<close>

theorem concurrent_failures_all_counted:
  assumes "redis w (getCircuitBreakerKey config k) = None"
  shows "failureCount (redis (snd (recordFailures config k tmos w))) (getCircuitBreakerKey config k)
           = Some (int (length tmos)) \<and>
         (tmos \<noteq> [] \<longrightarrow>
            map_option val (redis (snd (recordFailures config k tmos w))
              (getCircuitBreakerKey config k)) = Some (show_int (int (length tmos)))) \<and>
         fst (recordFailures config k tmos w) = replicate (length tmos) (Inr ())"
proof -
  have c: "failureCount (redis w) (getCircuitBreakerKey config k) = Some 0"
    using assms by (simp add: failureCount_def)
  let ?db = "redis (snd (recordFailures config k tmos w))"
  from recordFailures_counts [OF c, of tmos]
  have r: "failureCount ?db (getCircuitBreakerKey config k) = Some (int (length tmos))"
    and ok: "fst (recordFailures config k tmos w) = replicate (length tmos) (Inr ())"
    by simp_all
  have "tmos \<noteq> [] \<Longrightarrow>
     map_option val (?db (getCircuitBreakerKey config k)) = Some (show_int (int (length tmos)))"
  proof (cases "?db (getCircuitBreakerKey config k)")
    case None
    assume "tmos \<noteq> []"
    with None r show ?thesis by (simp add: failureCount_def)
  next
    case (Some e)
    with r have "string2ll (val e) = Some (int (length tmos))" by (simp add: failureCount_def)
    then have "val e = show_int (int (length tmos))" by (rule string2ll_Some)
    with Some show ?thesis by simp
  qed
  with r ok show ?thesis by simp
qed

theorem concurrent_failures_all_counted_witness:
  "redis empty_world (getCircuitBreakerKey example_options ''checkBalance'') = None \<and>
   failureCount (redis (snd (recordFailures example_options ''checkBalance''
                               [10000, 10000, 15000] empty_world)))
     (getCircuitBreakerKey example_options ''checkBalance'') = Some 3 \<and>
   map_option val (redis (snd (recordFailures example_options ''checkBalance''
                                 [10000, 10000, 15000] empty_world))
     (getCircuitBreakerKey example_options ''checkBalance'')) = Some ''3''"
proof -
  have h: "redis empty_world (getCircuitBreakerKey example_options ''checkBalance'') = None"
    by (simp add: empty_world_def)
  have s: "show_int 3 = ''3''" by code_simp
  from concurrent_failures_all_counted [OF h, of "[10000, 10000, 15000]"] h
  show ?thesis by (simp add: s)
qed

text \<open>
  The same holds when the store runs single commands one at a time and the commands of
  different batches interleave: whatever the order, the counter grows by the number of
  increments.
\<close>

lemma interleaved_commands_count:
  assumes "failureCount db K = Some c"
    and "\<forall>cmd \<in> set cs. cmd = INCR K \<or> (\<exists>secs. cmd = EXPIRE K secs)"
  shows "failureCount (snd (run_commands cs db)) K =
           Some (c + int (length (filter (\<lambda>cmd. cmd = INCR K) cs)))"
  using assms
proof (induction cs arbitrary: db c)
  case Nil
  then show ?case by simp
next
  case (Cons cmd cs)
  from Cons.prems(2) have rest: "\<forall>cmd \<in> set cs. cmd = INCR K \<or> (\<exists>secs. cmd = EXPIRE K secs)"
    by simp
  from Cons.prems(2) consider "cmd = INCR K" | secs where "cmd = EXPIRE K secs" by auto
  then show ?case
  proof cases
    case 1
    have "failureCount (snd (run_command (INCR K) db)) K = Some (c + 1)"
      using Cons.prems(1)
      by (auto simp: failureCount_def string2ll_show_int split: option.splits)
    from Cons.IH [OF this rest] 1 show ?thesis
      by (simp add: split_beta Let_def)
  next
    case 2
    have "failureCount (snd (run_command (EXPIRE K secs) db)) K = Some c"
      using Cons.prems(1)
      by (auto simp: failureCount_def split: option.splits number.splits)
    from Cons.IH [OF this rest] 2 show ?thesis
      by (simp add: split_beta Let_def)
  qed
qed

end
